theory Spec2Isabelle
  imports Complex_Main "HOL-Library.AList"
begin

section \<open>Data model of the rate limiter (server/rateLimiter.js)\<close>

text \<open>
  Timestamps are the millisecond values of \<^verbatim>\<open>Date.now()\<close> and counts are JavaScript
  numbers holding integers; both are modelled as \<open>int\<close>. Every read of the clock is an
  explicit argument \<open>now\<close> of the operation that performs it.

  The objects of the source share field names (\<^verbatim>\<open>resetTime\<close> occurs in the stored
  record, in the result of \<^verbatim>\<open>checkLimit\<close> and in the result of \<^verbatim>\<open>getStatus\<close>), so
  the records below are extensions of one base record that carries \<open>resetTime\<close>:
  \<^item> \<open>userData\<close> is the stored object \<^verbatim>\<open>{count, resetTime}\<close>;
  \<^item> \<open>statusResult\<close> is the result \<^verbatim>\<open>{remaining, resetTime}\<close> of \<^verbatim>\<open>getStatus\<close>;
  \<^item> \<open>checkResult\<close> is the result \<^verbatim>\<open>{allowed, remaining, resetTime}\<close> of \<^verbatim>\<open>checkLimit\<close>.
\<close>

record timed =
  resetTime :: int

record userData = timed +
  count :: int

record statusResult = timed +
  remaining :: int

record checkResult = statusResult +
  allowed :: bool

text \<open>
  \<^verbatim>\<open>this.userRequests\<close> is a JavaScript \<^verbatim>\<open>Map\<close>: an insertion-ordered table with unique
  keys. It is an association list: \<^verbatim>\<open>get\<close> is \<open>map_of\<close>, \<^verbatim>\<open>set\<close> is \<open>AList.update\<close>
  (an existing key keeps its position, a new key is appended) and \<^verbatim>\<open>delete\<close> is
  \<open>AList.delete\<close>. User keys are strings.
\<close>

type_synonym store = "(string \<times> userData) list"

record RateLimiter =
  maxRequests :: int
  windowMs :: int
  userRequests :: store

text \<open>
  \<^verbatim>\<open>constructor(maxRequests = 5, windowMs = 60000)\<close>: an omitted argument (\<open>None\<close>) takes
  its default, and the table starts empty.
\<close>

definition new_RateLimiter :: "int option \<Rightarrow> int option \<Rightarrow> RateLimiter" where
  "new_RateLimiter mr wm =
     \<lparr>maxRequests = (case mr of None \<Rightarrow> 5 | Some m \<Rightarrow> m),
      windowMs = (case wm of None \<Rightarrow> 60000 | Some w \<Rightarrow> w),
      userRequests = []\<rparr>"

text \<open>
  A \<^verbatim>\<open>Map\<close> never holds a key twice. The association list of a new limiter has this
  property and every operation below keeps it.
\<close>

definition unique_keys :: "RateLimiter \<Rightarrow> bool" where
  "unique_keys rl = distinct (map fst (userRequests rl))"

section \<open>The operations of class RateLimiter\<close>

text \<open>
  \<^verbatim>\<open>checkLimit(userId)\<close>. The test \<^verbatim>\<open>!userData || now >= userData.resetTime\<close> is the
  predicate \<open>no_active_window\<close>: a stored object is always truthy, so \<^verbatim>\<open>!userData\<close>
  holds exactly when the key is absent. \<open>checkLimit\<close> writes the test out as the two
  branches \<open>None\<close> and \<open>now \<ge> resetTime d\<close>, which do the same. In the second branch of
  the source the stored object is incremented in place and the same object written back.
\<close>

definition no_active_window :: "userData option \<Rightarrow> int \<Rightarrow> bool" where
  "no_active_window userData now =
     (case userData of None \<Rightarrow> True | Some d \<Rightarrow> now \<ge> resetTime d)"

definition checkLimit :: "RateLimiter \<Rightarrow> int \<Rightarrow> string \<Rightarrow> checkResult \<times> RateLimiter" where
  "checkLimit rl now userId =
     (case map_of (userRequests rl) userId of
        None \<Rightarrow>
          (\<lparr>resetTime = now + windowMs rl, remaining = maxRequests rl - 1, allowed = True\<rparr>,
           rl\<lparr>userRequests :=
                AList.update userId \<lparr>resetTime = now + windowMs rl, count = 1\<rparr> (userRequests rl)\<rparr>)
      | Some d \<Rightarrow>
          if now \<ge> resetTime d then
            (\<lparr>resetTime = now + windowMs rl, remaining = maxRequests rl - 1, allowed = True\<rparr>,
             rl\<lparr>userRequests :=
                  AList.update userId \<lparr>resetTime = now + windowMs rl, count = 1\<rparr> (userRequests rl)\<rparr>)
          else if count d < maxRequests rl then
            (\<lparr>resetTime = resetTime d, remaining = maxRequests rl - (count d + 1), allowed = True\<rparr>,
             rl\<lparr>userRequests :=
                  AList.update userId (d\<lparr>count := count d + 1\<rparr>) (userRequests rl)\<rparr>)
          else
            (\<lparr>resetTime = resetTime d, remaining = 0, allowed = False\<rparr>, rl))"

text \<open>
  \<^verbatim>\<open>getStatus(userId)\<close> writes nothing; the limiter it returns is the one it was given.
\<close>

definition getStatus :: "RateLimiter \<Rightarrow> int \<Rightarrow> string \<Rightarrow> statusResult \<times> RateLimiter" where
  "getStatus rl now userId =
     (case map_of (userRequests rl) userId of
        None \<Rightarrow> (\<lparr>resetTime = now + windowMs rl, remaining = maxRequests rl\<rparr>, rl)
      | Some d \<Rightarrow>
          if now \<ge> resetTime d then
            (\<lparr>resetTime = now + windowMs rl, remaining = maxRequests rl\<rparr>, rl)
          else
            (\<lparr>resetTime = resetTime d, remaining = maxRequests rl - count d\<rparr>, rl))"

text \<open>\<^verbatim>\<open>reset(userId)\<close> is \<^verbatim>\<open>this.userRequests.delete(userId)\<close>.\<close>

definition reset :: "RateLimiter \<Rightarrow> string \<Rightarrow> RateLimiter" where
  "reset rl userId = rl\<lparr>userRequests := AList.delete userId (userRequests rl)\<rparr>"

text \<open>
  \<^verbatim>\<open>cleanup()\<close> walks the entries of the table and deletes the key of every entry with
  \<^verbatim>\<open>now >= data.resetTime\<close>. A \<^verbatim>\<open>Map\<close> iterator survives the deletion of the entry it
  stands on and goes on with the next one, and the loop deletes no other entry, so the
  entries visited are those of the table at the start of the loop. \<open>cleanup_loop\<close>
  takes the entries still to visit and the table as it stands.
\<close>

fun cleanup_loop :: "int \<Rightarrow> store \<Rightarrow> store \<Rightarrow> store" where
  "cleanup_loop now [] tbl = tbl"
| "cleanup_loop now ((userId, data) # entries) tbl =
     cleanup_loop now entries
       (if now \<ge> resetTime data then AList.delete userId tbl else tbl)"

definition cleanup :: "RateLimiter \<Rightarrow> int \<Rightarrow> RateLimiter" where
  "cleanup rl now = rl\<lparr>userRequests := cleanup_loop now (userRequests rl) (userRequests rl)\<rparr>"

section \<open>Sequences of calls\<close>

text \<open>
  \<open>checkLimit_seq rl k nows\<close> calls \<^verbatim>\<open>checkLimit(k)\<close> once for every clock value of
  \<open>nows\<close>, in order, and collects the results.
\<close>

fun checkLimit_seq :: "RateLimiter \<Rightarrow> string \<Rightarrow> int list \<Rightarrow> checkResult list \<times> RateLimiter" where
  "checkLimit_seq rl k [] = ([], rl)"
| "checkLimit_seq rl k (now # nows) =
     (case checkLimit rl now k of
        (r, rl') \<Rightarrow> (case checkLimit_seq rl' k nows of (rs, rl'') \<Rightarrow> (r # rs, rl'')))"

text \<open>
  A call on one key is one of the three per-key methods, with the clock value it reads;
  its outcome is what the method returns.
\<close>

datatype call = Call_checkLimit int | Call_getStatus int | Call_reset

datatype outcome = Checked checkResult | Status statusResult | Done

fun perform :: "RateLimiter \<Rightarrow> string \<Rightarrow> call \<Rightarrow> outcome \<times> RateLimiter" where
  "perform rl k (Call_checkLimit now) = (case checkLimit rl now k of (r, rl') \<Rightarrow> (Checked r, rl'))"
| "perform rl k (Call_getStatus now) = (case getStatus rl now k of (r, rl') \<Rightarrow> (Status r, rl'))"
| "perform rl k Call_reset = (Done, reset rl k)"

fun perform_all :: "RateLimiter \<Rightarrow> string \<Rightarrow> call list \<Rightarrow> outcome list \<times> RateLimiter" where
  "perform_all rl k [] = ([], rl)"
| "perform_all rl k (c # cs) =
     (case perform rl k c of
        (r, rl') \<Rightarrow> (case perform_all rl' k cs of (rs, rl'') \<Rightarrow> (r # rs, rl'')))"

text \<open>
  What \<open>checkLimit\<close> returns when it finds an active window that ends at \<open>r\<close> and
  holds \<open>c\<close> admitted requests, under the limit \<open>m\<close>: its second and third branch.
\<close>

definition expected_result :: "int \<Rightarrow> int \<Rightarrow> int \<Rightarrow> checkResult" where
  "expected_result m r c =
     \<lparr>resetTime = r, remaining = (if c < m then m - 1 - c else 0), allowed = (c < m)\<rparr>"

text \<open>
  Every stored count is at most the limit. It holds of a new limiter and every operation
  keeps it when the limit is positive.
\<close>

definition counts_bounded :: "RateLimiter \<Rightarrow> bool" where
  "counts_bounded rl = list_all (\<lambda>(k, d). count d \<le> maxRequests rl) (userRequests rl)"

section \<open>The HTTP layer (createRateLimiterMiddleware and server/index.js)\<close>

text \<open>
  Of a request the code reads three caller-supplied identities:
  \<^verbatim>\<open>req.headers['x-user-id']\<close>, \<^verbatim>\<open>req.query.userId\<close> and \<^verbatim>\<open>req.body?.userId\<close>. Each is a
  string or \<^verbatim>\<open>undefined\<close> (\<open>None\<close>).
\<close>

record request =
  headers_x_user_id :: "string option"
  query_userId :: "string option"
  body_userId :: "string option"

text \<open>
  JavaScript truthiness of such a value: \<^verbatim>\<open>undefined\<close> and the empty string are falsy,
  every other string is truthy. \<^verbatim>\<open>a || b\<close> is \<^verbatim>\<open>a\<close> when \<^verbatim>\<open>a\<close> is truthy and \<^verbatim>\<open>b\<close>
  otherwise; \<open>js_or_lit\<close> is \<^verbatim>\<open>a || 'literal'\<close>, whose value is always a string.
\<close>

definition truthy :: "string option \<Rightarrow> bool" where
  "truthy v = (case v of None \<Rightarrow> False | Some s \<Rightarrow> s \<noteq> [])"

definition js_or :: "string option \<Rightarrow> string option \<Rightarrow> string option" where
  "js_or a b = (if truthy a then a else b)"

definition js_or_lit :: "string option \<Rightarrow> string \<Rightarrow> string" where
  "js_or_lit a s = (case a of None \<Rightarrow> s | Some v \<Rightarrow> if v \<noteq> [] then v else s)"

text \<open>
  The identity each endpoint resolves, as its first statement writes it (\<^verbatim>\<open>||\<close>
  associates to the left):
  \<^item> the middleware: \<^verbatim>\<open>headers['x-user-id'] || query.userId || body?.userId || 'anonymous'\<close>;
  \<^item> the handler of GET /api/data: \<^verbatim>\<open>headers['x-user-id'] || query.userId || 'anonymous'\<close>;
  \<^item> the handler of POST /api/data: \<^verbatim>\<open>headers['x-user-id'] || body?.userId || 'anonymous'\<close>;
  \<^item> GET /api/rate-limit-status: \<^verbatim>\<open>headers['x-user-id'] || query.userId || 'anonymous'\<close>;
  \<^item> POST /api/reset-rate-limit: \<^verbatim>\<open>headers['x-user-id'] || body?.userId || query.userId\<close>.
\<close>

definition middleware_userId :: "request \<Rightarrow> string" where
  "middleware_userId req =
     js_or_lit (js_or (js_or (headers_x_user_id req) (query_userId req)) (body_userId req))
       ''anonymous''"

definition get_api_data_userId :: "request \<Rightarrow> string" where
  "get_api_data_userId req =
     js_or_lit (js_or (headers_x_user_id req) (query_userId req)) ''anonymous''"

definition post_api_data_userId :: "request \<Rightarrow> string" where
  "post_api_data_userId req =
     js_or_lit (js_or (headers_x_user_id req) (body_userId req)) ''anonymous''"

definition rate_limit_status_userId :: "request \<Rightarrow> string" where
  "rate_limit_status_userId req =
     js_or_lit (js_or (headers_x_user_id req) (query_userId req)) ''anonymous''"

definition reset_rate_limit_userId :: "request \<Rightarrow> string option" where
  "reset_rate_limit_userId req =
     js_or (js_or (headers_x_user_id req) (body_userId req)) (query_userId req)"

text \<open>
  \<^verbatim>\<open>Math.ceil(ms / 1000)\<close> for an integer number of milliseconds. Integer division
  rounds down in HOL, so the ceiling is the negated quotient of the negated argument.
\<close>

definition ceil_seconds :: "int \<Rightarrow> int" where
  "ceil_seconds ms = - ((- ms) div 1000)"

text \<open>
  The middleware. It reads the clock twice: \<open>now\<close> is the value \<^verbatim>\<open>checkLimit\<close> reads and
  \<open>now'\<close> the value read when the 429 body is built. The three response headers are
  always set; timestamps stay millisecond values (the source prints them with
  \<^verbatim>\<open>toISOString\<close>), and of the 429 body the fields \<^verbatim>\<open>resetTime\<close> and \<^verbatim>\<open>retryAfter\<close> are
  kept (\<^verbatim>\<open>error\<close> and \<^verbatim>\<open>message\<close> are fixed texts). \<open>Next\<close> is the call of \<^verbatim>\<open>next()\<close>.
\<close>

record rateLimitHeaders =
  x_RateLimit_Limit :: int
  x_RateLimit_Remaining :: int
  x_RateLimit_Reset :: int

record rejection = timed +
  retryAfter :: int

datatype middleware_outcome = Rejected429 rejection | Next

definition rateLimiterMiddleware ::
  "RateLimiter \<Rightarrow> int \<Rightarrow> int \<Rightarrow> request \<Rightarrow> (rateLimitHeaders \<times> middleware_outcome) \<times> RateLimiter" where
  "rateLimiterMiddleware rl now now' req =
     (case checkLimit rl now (middleware_userId req) of
        (result, rl') \<Rightarrow>
          let headers = \<lparr>x_RateLimit_Limit = maxRequests rl',
                         x_RateLimit_Remaining = remaining result,
                         x_RateLimit_Reset = resetTime result\<rparr>
          in if \<not> allowed result
             then ((headers,
                    Rejected429 \<lparr>resetTime = resetTime result,
                                 retryAfter = ceil_seconds (resetTime result - now')\<rparr>), rl')
             else ((headers, Next), rl'))"



text \<open>
  POST /api/reset-rate-limit: \<^verbatim>\<open>if (!userId) return res.status(400)...\<close>, otherwise
  \<^verbatim>\<open>rateLimiter.reset(userId)\<close> and a confirmation naming the user.
\<close>

datatype reset_response = BadRequest400 | ResetDone string

definition reset_rate_limit :: "RateLimiter \<Rightarrow> request \<Rightarrow> reset_response \<times> RateLimiter" where
  "reset_rate_limit rl req =
     (case reset_rate_limit_userId req of
        None \<Rightarrow> (BadRequest400, rl)
      | Some userId \<Rightarrow>
          if userId = [] then (BadRequest400, rl)
          else (ResetDone userId, reset rl userId))"

text \<open>
  The precedence as the specification words it: the identity header if present,
  otherwise the query parameter, otherwise the request-body field, otherwise the literal
  default; a value is present when it is given and not empty.
\<close>

definition present :: "string option \<Rightarrow> string option" where
  "present v = (case v of None \<Rightarrow> None | Some s \<Rightarrow> if s = [] then None else Some s)"

definition spec_identity :: "request \<Rightarrow> string" where
  "spec_identity req =
     (case List.map_filter present [headers_x_user_id req, query_userId req, body_userId req] of
        [] \<Rightarrow> ''anonymous''
      | s # _ \<Rightarrow> s)"

text \<open>
  Two limiters look the same from a key when they have the same configuration and the
  same record for that key.
\<close>

definition same_view :: "string \<Rightarrow> RateLimiter \<Rightarrow> RateLimiter \<Rightarrow> bool" where
  "same_view k a b \<longleftrightarrow>
     maxRequests a = maxRequests b \<and> windowMs a = windowMs b \<and>
     map_of (userRequests a) k = map_of (userRequests b) k"

text \<open>
  The limiters a server can hold: a new one, and what the writing methods make of one
  (\<open>getStatus\<close> writes nothing).
\<close>

inductive reachable :: "RateLimiter \<Rightarrow> bool" where
  reachable_new: "reachable (new_RateLimiter mr wm)"
| reachable_checkLimit: "reachable rl \<Longrightarrow> reachable (snd (checkLimit rl now k))"
| reachable_reset: "reachable rl \<Longrightarrow> reachable (reset rl k)"
| reachable_cleanup: "reachable rl \<Longrightarrow> reachable (cleanup rl now)"

section \<open>Basic facts about the operations\<close>

lemma checkLimit_fresh:
  "no_active_window (map_of (userRequests rl) k) now \<Longrightarrow>
   checkLimit rl now k =
     (\<lparr>resetTime = now + windowMs rl, remaining = maxRequests rl - 1, allowed = True\<rparr>,
      rl\<lparr>userRequests :=
           AList.update k \<lparr>resetTime = now + windowMs rl, count = 1\<rparr> (userRequests rl)\<rparr>)"
  by (cases "map_of (userRequests rl) k") (simp_all add: checkLimit_def no_active_window_def)

lemma checkLimit_active:
  "map_of (userRequests rl) k = Some d \<Longrightarrow> now < resetTime d \<Longrightarrow>
   checkLimit rl now k =
     (expected_result (maxRequests rl) (resetTime d) (count d),
      if count d < maxRequests rl
      then rl\<lparr>userRequests := AList.update k (d\<lparr>count := count d + 1\<rparr>) (userRequests rl)\<rparr>
      else rl)"
  by (simp add: checkLimit_def expected_result_def)

lemma checkLimit_config:
  "maxRequests (snd (checkLimit rl now k)) = maxRequests rl"
  "windowMs (snd (checkLimit rl now k)) = windowMs rl"
  by (simp_all add: checkLimit_def split: option.splits)

lemma checkLimit_other:
  "k' \<noteq> k \<Longrightarrow> map_of (userRequests (snd (checkLimit rl now k))) k' = map_of (userRequests rl) k'"
  by (simp add: checkLimit_def update_conv' split: option.splits)


lemma snd_getStatus: "snd (getStatus rl now k) = rl"
  by (simp add: getStatus_def split: option.splits)


lemma fst_checkLimit_seq_Cons:
  "fst (checkLimit_seq rl k (t # ts)) =
     fst (checkLimit rl t k) # fst (checkLimit_seq (snd (checkLimit rl t k)) k ts)"
  by (simp add: split_beta)

lemma upt_Suc_shift: "[0..<Suc n] = 0 # map Suc [0..<n]"
  by (simp add: upt_conv_Cons map_Suc_upt del: upt_Suc)

subsection \<open>The table after cleanup\<close>

lemma cleanup_loop_filter:
  "cleanup_loop now entries tbl =
     filter (\<lambda>p. fst p \<notin> fst ` {e \<in> set entries. now \<ge> resetTime (snd e)}) tbl"
proof (induction entries arbitrary: tbl)
  case Nil
  then show ?case by simp
next
  case (Cons e entries)
  obtain userId data where e: "e = (userId, data)" by (cases e)
  show ?case
  proof (cases "now \<ge> resetTime data")
    case True
    have "{x \<in> set (e # entries). now \<ge> resetTime (snd x)} =
          insert e {x \<in> set entries. now \<ge> resetTime (snd x)}"
      using True e by auto
    then show ?thesis
      using True e Cons.IH [of "AList.delete userId tbl"]
      by (auto simp add: AList.delete_eq case_prod_unfold intro!: filter_cong)
  next
    case False
    have "{x \<in> set (e # entries). now \<ge> resetTime (snd x)} =
          {x \<in> set entries. now \<ge> resetTime (snd x)}"
      using False e by auto
    then show ?thesis
      using False e Cons.IH [of tbl] by simp
  qed
qed

lemma cleanup_eq_filter:
  assumes "distinct (map fst tbl)"
  shows "cleanup_loop now tbl tbl = filter (\<lambda>(k, d). resetTime d > now) tbl"
proof -
  have "(fst p \<notin> fst ` {e \<in> set tbl. now \<ge> resetTime (snd e)}) = (resetTime (snd p) > now)"
    if "p \<in> set tbl" for p
  proof
    assume "fst p \<notin> fst ` {e \<in> set tbl. now \<ge> resetTime (snd e)}"
    then show "resetTime (snd p) > now" using that by force
  next
    assume live: "resetTime (snd p) > now"
    show "fst p \<notin> fst ` {e \<in> set tbl. now \<ge> resetTime (snd e)}"
    proof
      assume "fst p \<in> fst ` {e \<in> set tbl. now \<ge> resetTime (snd e)}"
      then obtain e where e: "e \<in> set tbl" "now \<ge> resetTime (snd e)" "fst e = fst p"
        by auto
      have "e = p"
        using assms e(1,3) that by (metis eq_key_imp_eq_value prod.collapse)
      then show False using e(2) live by simp
    qed
  qed
  then show ?thesis
    unfolding cleanup_loop_filter by (intro filter_cong) (auto simp: case_prod_unfold)
qed

lemma map_of_filter_distinct:
  "distinct (map fst tbl) \<Longrightarrow>
   map_of (filter (\<lambda>(k, d). P d) tbl) k =
     (case map_of tbl k of None \<Rightarrow> None | Some d \<Rightarrow> if P d then Some d else None)"
proof (induction tbl)
  case Nil
  then show ?case by simp
next
  case (Cons e tbl)
  obtain k' d' where e: "e = (k', d')" by (cases e)
  have absent: "map_of tbl k' = None"
    using Cons.prems e by (simp add: map_of_eq_None_iff)
  show ?case
    using Cons e absent by (auto split: option.splits)
qed

subsection \<open>Invariants of the table\<close>

lemma unique_keys_new: "unique_keys (new_RateLimiter mr wm)"
  by (simp add: unique_keys_def new_RateLimiter_def)

lemma unique_keys_checkLimit: "unique_keys rl \<Longrightarrow> unique_keys (snd (checkLimit rl now k))"
  by (simp add: unique_keys_def checkLimit_def distinct_update split: option.splits)

lemma unique_keys_reset: "unique_keys rl \<Longrightarrow> unique_keys (reset rl k)"
  by (simp add: unique_keys_def reset_def distinct_delete)

lemma unique_keys_cleanup: "unique_keys rl \<Longrightarrow> unique_keys (cleanup rl now)"
  by (simp add: unique_keys_def cleanup_def cleanup_loop_filter distinct_map_filter)

lemma list_all_update:
  "list_all P al \<Longrightarrow> P (k, v) \<Longrightarrow> list_all P (AList.update k v al)"
  by (induction al) auto


lemma counts_bounded_new:
  "0 < maxRequests (new_RateLimiter mr wm) \<Longrightarrow> counts_bounded (new_RateLimiter mr wm)"
  by (simp add: counts_bounded_def new_RateLimiter_def)

lemma counts_bounded_checkLimit:
  assumes "0 < maxRequests rl" "counts_bounded rl"
  shows "counts_bounded (snd (checkLimit rl now k))"
proof (cases "map_of (userRequests rl) k")
  case None
  then show ?thesis
    using assms by (simp add: checkLimit_def counts_bounded_def list_all_update)
next
  case (Some d)
  then show ?thesis
    using assms by (simp add: checkLimit_def counts_bounded_def list_all_update)
qed

lemma counts_bounded_reset: "counts_bounded rl \<Longrightarrow> counts_bounded (reset rl k)"
  by (simp add: counts_bounded_def reset_def AList.delete_eq list_all_iff)

lemma counts_bounded_cleanup: "counts_bounded rl \<Longrightarrow> counts_bounded (cleanup rl now)"
  by (simp add: counts_bounded_def cleanup_def cleanup_loop_filter list_all_iff)



lemma reachable_unique_keys: "reachable rl \<Longrightarrow> unique_keys rl"
  by (induction rule: reachable.induct)
     (simp_all add: unique_keys_new unique_keys_checkLimit unique_keys_reset unique_keys_cleanup)

lemma reachable_counts_bounded:
  "reachable rl \<Longrightarrow> 0 < maxRequests rl \<Longrightarrow> counts_bounded rl"
proof (induction rule: reachable.induct)
  case (reachable_new mr wm)
  then show ?case by (rule counts_bounded_new)
next
  case (reachable_checkLimit rl now k)
  then show ?case by (simp add: checkLimit_config counts_bounded_checkLimit)
next
  case (reachable_reset rl k)
  have "maxRequests (reset rl k) = maxRequests rl"
    by (simp add: reset_def)
  with reachable_reset show ?case by (simp add: counts_bounded_reset)
next
  case (reachable_cleanup rl now)
  have "maxRequests (cleanup rl now) = maxRequests rl"
    by (simp add: cleanup_def)
  with reachable_cleanup show ?case by (simp add: counts_bounded_cleanup)
qed

subsection \<open>Calls on one key see only that key's record\<close>

lemma perform_config:
  "maxRequests (snd (perform rl k c)) = maxRequests rl"
  "windowMs (snd (perform rl k c)) = windowMs rl"
  by (cases c; simp add: checkLimit_config snd_getStatus reset_def split_beta)+

lemma perform_other:
  "k' \<noteq> k \<Longrightarrow> map_of (userRequests (snd (perform rl k c))) k' = map_of (userRequests rl) k'"
  by (cases c) (simp_all add: checkLimit_other snd_getStatus reset_def delete_conv' split_beta)

lemma checkLimit_same_view:
  assumes "same_view k a b"
  shows "fst (checkLimit a now k) = fst (checkLimit b now k)"
    and "same_view k (snd (checkLimit a now k)) (snd (checkLimit b now k))"
proof -
  have cfg: "maxRequests a = maxRequests b" "windowMs a = windowMs b"
    and rec: "map_of (userRequests a) k = map_of (userRequests b) k"
    using assms by (simp_all add: same_view_def)
  show "fst (checkLimit a now k) = fst (checkLimit b now k)"
    by (cases "map_of (userRequests b) k") (simp_all add: checkLimit_def cfg rec)
  show "same_view k (snd (checkLimit a now k)) (snd (checkLimit b now k))"
    by (cases "map_of (userRequests b) k")
       (simp_all add: checkLimit_def cfg rec same_view_def update_conv')
qed

lemma getStatus_same_view:
  assumes "same_view k a b"
  shows "fst (getStatus a now k) = fst (getStatus b now k)"
proof -
  have cfg: "maxRequests a = maxRequests b" "windowMs a = windowMs b"
    and rec: "map_of (userRequests a) k = map_of (userRequests b) k"
    using assms by (simp_all add: same_view_def)
  show ?thesis
    by (cases "map_of (userRequests b) k") (simp_all add: getStatus_def cfg rec)
qed

lemma perform_same_view:
  assumes "same_view k a b"
  shows "fst (perform a k c) = fst (perform b k c)"
    and "same_view k (snd (perform a k c)) (snd (perform b k c))"
proof -
  show "fst (perform a k c) = fst (perform b k c)"
    using checkLimit_same_view(1) [OF assms] getStatus_same_view [OF assms]
    by (cases c) (simp_all add: split_beta)
  show "same_view k (snd (perform a k c)) (snd (perform b k c))"
  proof (cases c)
    case (Call_checkLimit now)
    then show ?thesis
      using checkLimit_same_view(2) [OF assms, of now] by (simp add: split_beta)
  next
    case (Call_getStatus now)
    then show ?thesis
      using assms snd_getStatus [of a now k] snd_getStatus [of b now k]
      by (simp add: split_beta)
  next
    case Call_reset
    then show ?thesis
      using assms by (simp add: same_view_def reset_def delete_conv')
  qed
qed

lemma perform_all_Cons:
  "fst (perform_all rl k (c # cs)) =
     fst (perform rl k c) # fst (perform_all (snd (perform rl k c)) k cs)"
  "snd (perform_all rl k (c # cs)) = snd (perform_all (snd (perform rl k c)) k cs)"
  by (simp_all add: split_beta)

lemma perform_all_same_view:
  "same_view k a b \<Longrightarrow> fst (perform_all a k cs) = fst (perform_all b k cs)"
proof (induction cs arbitrary: a b)
  case Nil
  then show ?case by simp
next
  case (Cons c cs)
  show ?case
    using perform_same_view [OF Cons.prems, of c] Cons.IH
    by (simp add: perform_all_Cons del: perform_all.simps)
qed

lemma perform_all_other:
  "k' \<noteq> k \<Longrightarrow> same_view k' (snd (perform_all rl k cs)) rl"
proof (induction cs arbitrary: rl)
  case Nil
  then show ?case by (simp add: same_view_def)
next
  case (Cons c cs)
  have "same_view k' (snd (perform rl k c)) rl"
    using Cons.prems by (simp add: same_view_def perform_config perform_other)
  moreover have "same_view k' (snd (perform_all (snd (perform rl k c)) k cs)) (snd (perform rl k c))"
    using Cons by simp
  ultimately show ?case
    by (simp add: perform_all_Cons same_view_def del: perform_all.simps)
qed

subsection \<open>Whole seconds\<close>





subsection \<open>A run of calls inside one window\<close>

lemma checkLimit_seq_active:
  "map_of (userRequests rl) k = Some d \<Longrightarrow> \<forall>t\<in>set ts. t < resetTime d \<Longrightarrow>
   fst (checkLimit_seq rl k ts) =
     map (\<lambda>i. expected_result (maxRequests rl) (resetTime d) (count d + int i)) [0..<length ts]"
proof (induction ts arbitrary: rl d)
  case Nil
  then show ?case by simp
next
  case (Cons t ts)
  let ?m = "maxRequests rl" and ?r = "resetTime d"
  have t: "t < ?r" and ts: "\<forall>t\<in>set ts. t < ?r"
    using Cons.prems(2) by simp_all
  show ?case
  proof (cases "count d < ?m")
    case True
    let ?d' = "d\<lparr>count := count d + 1\<rparr>"
    let ?rl' = "rl\<lparr>userRequests := AList.update k ?d' (userRequests rl)\<rparr>"
    have step: "checkLimit rl t k = (expected_result ?m ?r (count d), ?rl')"
      using checkLimit_active [OF Cons.prems(1) t] True by simp
    have look: "map_of (userRequests ?rl') k = Some ?d'"
      by (simp add: update_conv')
    have "fst (checkLimit_seq ?rl' k ts) =
            map (\<lambda>i. expected_result ?m ?r (count d + 1 + int i)) [0..<length ts]"
      using Cons.IH [OF look] ts by simp
    then show ?thesis
      using step
      by (simp add: fst_checkLimit_seq_Cons upt_Suc_shift comp_def add.assoc
               del: upt_Suc checkLimit_seq.simps)
  next
    case False
    have step: "checkLimit rl t k = (expected_result ?m ?r (count d), rl)"
      using checkLimit_active [OF Cons.prems(1) t] False by simp
    have same: "expected_result ?m ?r (count d + int i) = expected_result ?m ?r (count d + int (Suc i))" for i
      using False by (simp add: expected_result_def)
    have "fst (checkLimit_seq rl k ts) =
            map (\<lambda>i. expected_result ?m ?r (count d + int i)) [0..<length ts]"
      using Cons.IH [OF Cons.prems(1)] ts by simp
    then show ?thesis
      using step same
      by (simp add: fst_checkLimit_seq_Cons upt_Suc_shift comp_def
               del: upt_Suc checkLimit_seq.simps of_nat_Suc)
  qed
qed

section \<open>The limiter store\<close>

text \<open>
  Claim C1. For every key and every positive limit: when the first call finds no active
  window for the key and every later call reads a clock value before the end of the
  window this first call opens, the calls return, in order, \<open>allowed = True\<close> with
  \<open>remaining\<close> going from \<open>maxRequests - 1\<close> down to \<open>0\<close> for the first \<open>maxRequests\<close>
  calls, and \<open>allowed = False\<close> with \<open>remaining = 0\<close> for every further call.
\<close>

theorem checkLimit_window_quota:
  assumes "0 < maxRequests rl"
    and "no_active_window (map_of (userRequests rl) k) t0"
    and "\<forall>t\<in>set ts. t < t0 + windowMs rl"
  shows "fst (checkLimit_seq rl k (t0 # ts)) =
           map (\<lambda>i. \<lparr>resetTime = t0 + windowMs rl,
                     remaining = (if int i < maxRequests rl then maxRequests rl - 1 - int i else 0),
                     allowed = (int i < maxRequests rl)\<rparr>)
               [0..<Suc (length ts)]"
proof -
  let ?d = "\<lparr>resetTime = t0 + windowMs rl, count = 1\<rparr>"
  let ?rl' = "rl\<lparr>userRequests := AList.update k ?d (userRequests rl)\<rparr>"
  have first: "checkLimit rl t0 k =
      (\<lparr>resetTime = t0 + windowMs rl, remaining = maxRequests rl - 1, allowed = True\<rparr>, ?rl')"
    using assms(2) by (rule checkLimit_fresh)
  have look: "map_of (userRequests ?rl') k = Some ?d"
    by (simp add: update_conv')
  have "fst (checkLimit_seq ?rl' k ts) =
          map (\<lambda>i. expected_result (maxRequests rl) (t0 + windowMs rl) (1 + int i)) [0..<length ts]"
    using checkLimit_seq_active [OF look] assms(3) by simp
  then show ?thesis
    using first assms(1)
    by (simp add: fst_checkLimit_seq_Cons upt_Suc_shift comp_def expected_result_def
             del: upt_Suc checkLimit_seq.simps)
qed

text \<open>
  The scenario of the specification: with the default limit 5 and window 60000 ms, six
  calls for \<open>user-1\<close> in one window.
\<close>

theorem checkLimit_window_quota_witness:
  "fst (checkLimit_seq (new_RateLimiter None None) ''user-1'' [1000, 1001, 1002, 1003, 1004, 1005]) =
     [\<lparr>resetTime = 61000, remaining = 4, allowed = True\<rparr>,
      \<lparr>resetTime = 61000, remaining = 3, allowed = True\<rparr>,
      \<lparr>resetTime = 61000, remaining = 2, allowed = True\<rparr>,
      \<lparr>resetTime = 61000, remaining = 1, allowed = True\<rparr>,
      \<lparr>resetTime = 61000, remaining = 0, allowed = True\<rparr>,
      \<lparr>resetTime = 61000, remaining = 0, allowed = False\<rparr>]"
  using checkLimit_window_quota
    [of "new_RateLimiter None None" "''user-1''" 1000 "[1001, 1002, 1003, 1004, 1005]"]
  by (simp add: new_RateLimiter_def no_active_window_def upt_rec)

text \<open>
  Claim C2. When the key has no record, or the clock has reached the \<open>resetTime\<close> of its
  record, \<open>checkLimit\<close> stores for the key a record with \<open>count = 1\<close> and
  \<open>resetTime = now + windowMs\<close> in place of any old one and returns \<open>allowed = True\<close> with
  \<open>remaining = maxRequests - 1\<close>, whatever the count of the old record was.
\<close>

theorem checkLimit_new_window:
  assumes "no_active_window (map_of (userRequests rl) k) now"
  shows "checkLimit rl now k =
           (\<lparr>resetTime = now + windowMs rl, remaining = maxRequests rl - 1, allowed = True\<rparr>,
            rl\<lparr>userRequests :=
                 AList.update k \<lparr>resetTime = now + windowMs rl, count = 1\<rparr> (userRequests rl)\<rparr>)
       \<and> map_of (userRequests (snd (checkLimit rl now k))) k =
           Some \<lparr>resetTime = now + windowMs rl, count = 1\<rparr>"
  using assms by (simp add: checkLimit_fresh update_conv')

text \<open>A saturated record whose window ends at 61000, and a call at exactly that time.\<close>

theorem checkLimit_new_window_witness:
  "no_active_window
     (map_of (userRequests \<lparr>maxRequests = 5, windowMs = 60000,
        userRequests = [(''user-1'', \<lparr>resetTime = 61000, count = 5\<rparr>)]\<rparr>) ''user-1'') 61000
   \<and> checkLimit \<lparr>maxRequests = 5, windowMs = 60000,
        userRequests = [(''user-1'', \<lparr>resetTime = 61000, count = 5\<rparr>)]\<rparr> 61000 ''user-1'' =
       (\<lparr>resetTime = 121000, remaining = 4, allowed = True\<rparr>,
        \<lparr>maxRequests = 5, windowMs = 60000,
         userRequests = [(''user-1'', \<lparr>resetTime = 121000, count = 1\<rparr>)]\<rparr>)"
  using checkLimit_new_window
    [of "\<lparr>maxRequests = 5, windowMs = 60000,
          userRequests = [(''user-1'', \<lparr>resetTime = 61000, count = 5\<rparr>)]\<rparr>" "''user-1''" 61000]
  by (simp add: no_active_window_def)

text \<open>
  Claim C3. When the record of the key is active (\<open>now < resetTime\<close>) and saturated
  (\<open>count = maxRequests\<close>), \<open>checkLimit\<close> returns \<open>allowed = False\<close>, \<open>remaining = 0\<close> and
  the \<open>resetTime\<close> of the record, and the limiter it leaves is the one it found: the
  count is not incremented and the window is not extended.
\<close>

theorem checkLimit_saturated_rejects:
  assumes "map_of (userRequests rl) k = Some d"
    and "now < resetTime d"
    and "count d = maxRequests rl"
  shows "checkLimit rl now k = (\<lparr>resetTime = resetTime d, remaining = 0, allowed = False\<rparr>, rl)"
  using assms by (simp add: checkLimit_def)

text \<open>The same saturated record, one millisecond before its window ends.\<close>

theorem checkLimit_saturated_rejects_witness:
  "checkLimit \<lparr>maxRequests = 5, windowMs = 60000,
      userRequests = [(''user-1'', \<lparr>resetTime = 61000, count = 5\<rparr>)]\<rparr> 60999 ''user-1'' =
     (\<lparr>resetTime = 61000, remaining = 0, allowed = False\<rparr>,
      \<lparr>maxRequests = 5, windowMs = 60000,
       userRequests = [(''user-1'', \<lparr>resetTime = 61000, count = 5\<rparr>)]\<rparr>)"
  using checkLimit_saturated_rejects
    [of "\<lparr>maxRequests = 5, windowMs = 60000,
          userRequests = [(''user-1'', \<lparr>resetTime = 61000, count = 5\<rparr>)]\<rparr>" "''user-1''"
        "\<lparr>resetTime = 61000, count = 5\<rparr>" 60999]
  by simp

text \<open>
  Claim C4. \<open>getStatus\<close> leaves the limiter as it found it: no record is changed and none
  is created. When the key has no record or its record has expired, the result is
  \<open>remaining = maxRequests\<close> and \<open>resetTime = now + windowMs\<close>. Any later \<open>checkLimit\<close>
  has the outcome it would have had without the call.
\<close>

theorem getStatus_read_only:
  "snd (getStatus rl now k) = rl
   \<and> (no_active_window (map_of (userRequests rl) k) now \<longrightarrow>
        fst (getStatus rl now k) = \<lparr>resetTime = now + windowMs rl, remaining = maxRequests rl\<rparr>)
   \<and> checkLimit (snd (getStatus rl now k)) now' k' = checkLimit rl now' k'"
  by (cases "map_of (userRequests rl) k") (simp_all add: getStatus_def no_active_window_def)

text \<open>A status query for a key that was never seen, then the first request of that key.\<close>

theorem getStatus_read_only_witness:
  "snd (getStatus (new_RateLimiter None None) 1000 ''user-1'') = new_RateLimiter None None
   \<and> no_active_window (map_of (userRequests (new_RateLimiter None None)) ''user-1'') 1000
   \<and> fst (getStatus (new_RateLimiter None None) 1000 ''user-1'') =
       \<lparr>resetTime = 61000, remaining = 5\<rparr>
   \<and> checkLimit (snd (getStatus (new_RateLimiter None None) 1000 ''user-1'')) 1001 ''user-1'' =
       (\<lparr>resetTime = 61001, remaining = 4, allowed = True\<rparr>,
        \<lparr>maxRequests = 5, windowMs = 60000,
         userRequests = [(''user-1'', \<lparr>resetTime = 61001, count = 1\<rparr>)]\<rparr>)"
  using getStatus_read_only [of "new_RateLimiter None None" 1000 "''user-1''" 1001 "''user-1''"]
  by (simp add: new_RateLimiter_def no_active_window_def checkLimit_def)

text \<open>
  Claim C5. For every limiter and key, \<open>reset\<close> removes the record of the key; a second
  \<open>reset\<close> changes nothing, and neither does a \<open>reset\<close> of a key that has no record. The
  \<open>checkLimit\<close> that follows returns what it returns on a limiter of the same
  configuration that has seen no key: \<open>allowed = True\<close>, \<open>remaining = maxRequests - 1\<close>
  and \<open>resetTime = now + windowMs\<close>, and it stores a record with \<open>count = 1\<close>.
\<close>

theorem reset_then_checkLimit:
  "map_of (userRequests (reset rl k)) k = None
   \<and> reset (reset rl k) k = reset rl k
   \<and> (map_of (userRequests rl) k = None \<longrightarrow> reset rl k = rl)
   \<and> fst (checkLimit (reset rl k) now k) =
       \<lparr>resetTime = now + windowMs rl, remaining = maxRequests rl - 1, allowed = True\<rparr>
   \<and> fst (checkLimit (reset rl k) now k) = fst (checkLimit (rl\<lparr>userRequests := []\<rparr>) now k)
   \<and> map_of (userRequests (snd (checkLimit (reset rl k) now k))) k =
       Some \<lparr>resetTime = now + windowMs rl, count = 1\<rparr>"
proof -
  have absent: "map_of (userRequests (reset rl k)) k = None"
    by (simp add: reset_def delete_conv')
  have idem: "reset (reset rl k) k = reset rl k"
    by (simp add: reset_def delete_idem)
  have noop: "reset rl k = rl" if "map_of (userRequests rl) k = None"
  proof -
    have "k \<notin> fst ` set (userRequests rl)"
      using that by (simp add: map_of_eq_None_iff)
    then show ?thesis by (simp add: reset_def)
  qed
  have fresh: "no_active_window (map_of (userRequests (reset rl k)) k) now"
    using absent by (simp add: no_active_window_def)
  have conf: "windowMs (reset rl k) = windowMs rl" "maxRequests (reset rl k) = maxRequests rl"
    by (simp_all add: reset_def)
  have call: "checkLimit (reset rl k) now k =
      (\<lparr>resetTime = now + windowMs rl, remaining = maxRequests rl - 1, allowed = True\<rparr>,
       (reset rl k)\<lparr>userRequests :=
          AList.update k \<lparr>resetTime = now + windowMs rl, count = 1\<rparr> (userRequests (reset rl k))\<rparr>)"
    using checkLimit_fresh [OF fresh] conf by simp
  have never: "fst (checkLimit (rl\<lparr>userRequests := []\<rparr>) now k) =
      \<lparr>resetTime = now + windowMs rl, remaining = maxRequests rl - 1, allowed = True\<rparr>"
    by (simp add: checkLimit_def)
  show ?thesis
    using absent idem noop call never by (simp add: update_conv')
qed

text \<open>
  Two instances: a \<open>reset\<close> of a key without a record, and the scenario of the
  specification, a \<open>reset\<close> of the saturated \<open>user-1\<close> followed by a request.
\<close>

theorem reset_then_checkLimit_witness:
  "map_of (userRequests \<lparr>maxRequests = 5, windowMs = 60000,
      userRequests = [(''user-2'', \<lparr>resetTime = 61000, count = 2\<rparr>)]\<rparr>) ''user-1'' = None
   \<and> reset \<lparr>maxRequests = 5, windowMs = 60000,
        userRequests = [(''user-2'', \<lparr>resetTime = 61000, count = 2\<rparr>)]\<rparr> ''user-1'' =
       \<lparr>maxRequests = 5, windowMs = 60000,
        userRequests = [(''user-2'', \<lparr>resetTime = 61000, count = 2\<rparr>)]\<rparr>
   \<and> reset \<lparr>maxRequests = 5, windowMs = 60000,
        userRequests = [(''user-1'', \<lparr>resetTime = 61000, count = 5\<rparr>)]\<rparr> ''user-1'' =
       \<lparr>maxRequests = 5, windowMs = 60000, userRequests = []\<rparr>
   \<and> fst (checkLimit (reset \<lparr>maxRequests = 5, windowMs = 60000,
        userRequests = [(''user-1'', \<lparr>resetTime = 61000, count = 5\<rparr>)]\<rparr> ''user-1'') 2000 ''user-1'') =
       \<lparr>resetTime = 62000, remaining = 4, allowed = True\<rparr>"
  using reset_then_checkLimit
    [of "\<lparr>maxRequests = 5, windowMs = 60000,
          userRequests = [(''user-2'', \<lparr>resetTime = 61000, count = 2\<rparr>)]\<rparr>" "''user-1''" 2000]
    reset_then_checkLimit
    [of "\<lparr>maxRequests = 5, windowMs = 60000,
          userRequests = [(''user-1'', \<lparr>resetTime = 61000, count = 5\<rparr>)]\<rparr>" "''user-1''" 2000]
  by (simp add: reset_def)

text \<open>
  Claim C6. \<open>cleanup\<close> removes exactly the entries whose \<open>resetTime\<close> is at most the clock
  value of the call: what is left of the table are its entries with \<open>now < resetTime\<close>, in
  their order and with \<open>count\<close> and \<open>resetTime\<close> as they were, so a key is looked up to
  nothing when its record had expired and to its old record otherwise. The table is one
  whose keys are unique, as every table of the limiter is.
\<close>

theorem cleanup_removes_exactly_expired:
  assumes "unique_keys rl"
  shows "userRequests (cleanup rl now) = filter (\<lambda>(k, d). now < resetTime d) (userRequests rl)
       \<and> map_of (userRequests (cleanup rl now)) k =
           (case map_of (userRequests rl) k of
              None \<Rightarrow> None
            | Some d \<Rightarrow> if resetTime d \<le> now then None else Some d)
       \<and> maxRequests (cleanup rl now) = maxRequests rl
       \<and> windowMs (cleanup rl now) = windowMs rl"
proof -
  have d: "distinct (map fst (userRequests rl))"
    using assms by (simp add: unique_keys_def)
  have "(case map_of (userRequests rl) k of None \<Rightarrow> None
          | Some d \<Rightarrow> if now < resetTime d then Some d else None) =
        (case map_of (userRequests rl) k of None \<Rightarrow> None
          | Some d \<Rightarrow> if resetTime d \<le> now then None else Some d)"
    by (simp split: option.splits)
  then show ?thesis
    using cleanup_eq_filter [OF d, of now]
      map_of_filter_distinct [OF d, of "\<lambda>d. now < resetTime d" k]
    by (simp add: cleanup_def)
qed

text \<open>
  Three entries and a call at 150: the windows ending at 100 and at 150 are removed, the
  one ending at 200 stays.
\<close>

theorem cleanup_removes_exactly_expired_witness:
  "unique_keys \<lparr>maxRequests = 5, windowMs = 60000,
      userRequests = [(''a'', \<lparr>resetTime = 100, count = 5\<rparr>),
                      (''b'', \<lparr>resetTime = 200, count = 2\<rparr>),
                      (''c'', \<lparr>resetTime = 150, count = 1\<rparr>)]\<rparr>
   \<and> userRequests (cleanup \<lparr>maxRequests = 5, windowMs = 60000,
      userRequests = [(''a'', \<lparr>resetTime = 100, count = 5\<rparr>),
                      (''b'', \<lparr>resetTime = 200, count = 2\<rparr>),
                      (''c'', \<lparr>resetTime = 150, count = 1\<rparr>)]\<rparr> 150) =
       [(''b'', \<lparr>resetTime = 200, count = 2\<rparr>)]
   \<and> map_of (userRequests (cleanup \<lparr>maxRequests = 5, windowMs = 60000,
      userRequests = [(''a'', \<lparr>resetTime = 100, count = 5\<rparr>),
                      (''b'', \<lparr>resetTime = 200, count = 2\<rparr>),
                      (''c'', \<lparr>resetTime = 150, count = 1\<rparr>)]\<rparr> 150)) ''c'' = None"
  using cleanup_removes_exactly_expired
    [of "\<lparr>maxRequests = 5, windowMs = 60000,
      userRequests = [(''a'', \<lparr>resetTime = 100, count = 5\<rparr>),
                      (''b'', \<lparr>resetTime = 200, count = 2\<rparr>),
                      (''c'', \<lparr>resetTime = 150, count = 1\<rparr>)]\<rparr>" 150 "''c''"]
  by (simp add: unique_keys_def)

text \<open>
  Claim C7. For two distinct keys \<open>k1\<close> and \<open>k2\<close>, no sequence of \<open>checkLimit\<close>,
  \<open>getStatus\<close> and \<open>reset\<close> calls on \<open>k1\<close> changes the record stored for \<open>k2\<close>, and every
  sequence of such calls on \<open>k2\<close> made afterwards returns what it returns without the
  calls on \<open>k1\<close>.
\<close>

theorem keys_independent:
  assumes "k1 \<noteq> k2"
  shows "map_of (userRequests (snd (perform_all rl k1 cs))) k2 = map_of (userRequests rl) k2
       \<and> fst (perform_all (snd (perform_all rl k1 cs)) k2 cs') = fst (perform_all rl k2 cs')"
proof -
  have v: "same_view k2 (snd (perform_all rl k1 cs)) rl"
    using assms by (simp add: perform_all_other)
  show ?thesis
    using v perform_all_same_view [OF v, of cs'] by (simp add: same_view_def)
qed

text \<open>
  The scenario of the specification: \<open>user-a\<close> has made one request; after five requests
  of \<open>user-b\<close> the next request of \<open>user-a\<close> is admitted with \<open>remaining = 3\<close>.
\<close>

theorem keys_independent_witness:
  "''user-b'' \<noteq> ''user-a''
   \<and> map_of (userRequests (snd (perform_all
        \<lparr>maxRequests = 5, windowMs = 60000,
         userRequests = [(''user-a'', \<lparr>resetTime = 61000, count = 1\<rparr>)]\<rparr> ''user-b''
        [Call_checkLimit 1001, Call_checkLimit 1002, Call_checkLimit 1003,
         Call_checkLimit 1004, Call_checkLimit 1005]))) ''user-a'' =
       Some \<lparr>resetTime = 61000, count = 1\<rparr>
   \<and> fst (perform_all (snd (perform_all
        \<lparr>maxRequests = 5, windowMs = 60000,
         userRequests = [(''user-a'', \<lparr>resetTime = 61000, count = 1\<rparr>)]\<rparr> ''user-b''
        [Call_checkLimit 1001, Call_checkLimit 1002, Call_checkLimit 1003,
         Call_checkLimit 1004, Call_checkLimit 1005])) ''user-a'' [Call_checkLimit 1006]) =
       [Checked \<lparr>resetTime = 61000, remaining = 3, allowed = True\<rparr>]"
  using keys_independent
    [of "''user-b''" "''user-a''"
        "\<lparr>maxRequests = 5, windowMs = 60000,
          userRequests = [(''user-a'', \<lparr>resetTime = 61000, count = 1\<rparr>)]\<rparr>"
        "[Call_checkLimit 1001, Call_checkLimit 1002, Call_checkLimit 1003,
          Call_checkLimit 1004, Call_checkLimit 1005]"
        "[Call_checkLimit 1006]"]
  by (simp add: checkLimit_def)

section \<open>The HTTP layer\<close>

subsection \<open>What each endpoint resolves\<close>

text \<open>
  The middleware resolves the identity exactly as the specification words the
  precedence. The handlers of GET /api/data and of the status endpoint resolve what
  that precedence gives once the body field is dropped from the request, and the
  handler of POST /api/data what it gives once the query parameter is dropped. The
  reset endpoint resolves what it gives with query parameter and body field exchanged,
  when one of the three values is present, and answers 400 without touching the limiter
  when none is.
\<close>

lemma middleware_userId_spec: "middleware_userId req = spec_identity req"
  by (cases "headers_x_user_id req"; cases "query_userId req"; cases "body_userId req")
     (simp_all add: middleware_userId_def spec_identity_def js_or_def js_or_lit_def
        truthy_def present_def)

lemma get_api_data_userId_spec:
  "get_api_data_userId req = spec_identity (req\<lparr>body_userId := None\<rparr>)"
  by (cases "headers_x_user_id req"; cases "query_userId req")
     (simp_all add: get_api_data_userId_def spec_identity_def js_or_def js_or_lit_def
        truthy_def present_def)

lemma rate_limit_status_userId_spec:
  "rate_limit_status_userId req = spec_identity (req\<lparr>body_userId := None\<rparr>)"
  by (cases "headers_x_user_id req"; cases "query_userId req")
     (simp_all add: rate_limit_status_userId_def spec_identity_def js_or_def js_or_lit_def
        truthy_def present_def)

lemma post_api_data_userId_spec:
  "post_api_data_userId req = spec_identity (req\<lparr>query_userId := None\<rparr>)"
  by (cases "headers_x_user_id req"; cases "body_userId req")
     (simp_all add: post_api_data_userId_def spec_identity_def js_or_def js_or_lit_def
        truthy_def present_def)

lemma reset_rate_limit_present:
  assumes "truthy (headers_x_user_id req) \<or> truthy (query_userId req) \<or> truthy (body_userId req)"
  shows "reset_rate_limit rl req =
           (ResetDone (spec_identity
              (req\<lparr>query_userId := body_userId req, body_userId := query_userId req\<rparr>)),
            reset rl (spec_identity
              (req\<lparr>query_userId := body_userId req, body_userId := query_userId req\<rparr>)))"
  using assms
  by (cases "headers_x_user_id req"; cases "query_userId req"; cases "body_userId req")
     (simp_all add: reset_rate_limit_def reset_rate_limit_userId_def spec_identity_def
        js_or_def truthy_def present_def)

lemma reset_rate_limit_absent:
  assumes "\<not> truthy (headers_x_user_id req)" "\<not> truthy (query_userId req)"
    and "\<not> truthy (body_userId req)"
  shows "reset_rate_limit rl req = (BadRequest400, rl)"
  using assms
  by (cases "headers_x_user_id req"; cases "query_userId req"; cases "body_userId req")
     (simp_all add: reset_rate_limit_def reset_rate_limit_userId_def js_or_def truthy_def)

subsection \<open>The claims about the HTTP layer\<close>

text \<open>
  Claim C8 says that every endpoint resolves the identity with the same precedence:
  the header, otherwise the query parameter, otherwise the body field, otherwise
  \<open>anonymous\<close>; in particular the reset endpoint and the handlers behind the middleware
  use the order header, query parameter, body field. The middleware does, and its
  comment says so (\<^verbatim>\<open>Priority: header > query > body\<close>); the reset endpoint and the
  handler of POST /api/data do not. On a request without the header whose query
  parameter is \<open>a\<close> and whose body field is \<open>b\<close>, the precedence of the claim gives \<open>a\<close>
  and the middleware charges the request to \<open>a\<close>, leaving \<open>b\<close> without a record; the
  handler of POST /api/data that runs next resolves \<open>b\<close> and reports the status of \<open>b\<close>,
  a full quota, and the reset endpoint resets \<open>b\<close> and leaves the saturated record of
  \<open>a\<close> in place.
\<close>

theorem identity_precedence_violated:
  "spec_identity \<lparr>headers_x_user_id = None, query_userId = Some ''a'', body_userId = Some ''b''\<rparr> = ''a''
   \<and> middleware_userId
        \<lparr>headers_x_user_id = None, query_userId = Some ''a'', body_userId = Some ''b''\<rparr> = ''a''
   \<and> snd (rateLimiterMiddleware (new_RateLimiter None None) 1000 1000
        \<lparr>headers_x_user_id = None, query_userId = Some ''a'', body_userId = Some ''b''\<rparr>) =
       \<lparr>maxRequests = 5, windowMs = 60000,
        userRequests = [(''a'', \<lparr>resetTime = 61000, count = 1\<rparr>)]\<rparr>
   \<and> post_api_data_userId
        \<lparr>headers_x_user_id = None, query_userId = Some ''a'', body_userId = Some ''b''\<rparr> = ''b''
   \<and> fst (getStatus
        \<lparr>maxRequests = 5, windowMs = 60000,
         userRequests = [(''a'', \<lparr>resetTime = 61000, count = 1\<rparr>)]\<rparr> 1000
        (post_api_data_userId
          \<lparr>headers_x_user_id = None, query_userId = Some ''a'', body_userId = Some ''b''\<rparr>)) =
       \<lparr>resetTime = 61000, remaining = 5\<rparr>
   \<and> reset_rate_limit_userId
        \<lparr>headers_x_user_id = None, query_userId = Some ''a'', body_userId = Some ''b''\<rparr> = Some ''b''
   \<and> reset_rate_limit
        \<lparr>maxRequests = 5, windowMs = 60000,
         userRequests = [(''a'', \<lparr>resetTime = 61000, count = 5\<rparr>)]\<rparr>
        \<lparr>headers_x_user_id = None, query_userId = Some ''a'', body_userId = Some ''b''\<rparr> =
       (ResetDone ''b'',
        \<lparr>maxRequests = 5, windowMs = 60000,
         userRequests = [(''a'', \<lparr>resetTime = 61000, count = 5\<rparr>)]\<rparr>)"
  by (simp add: spec_identity_def middleware_userId_def reset_rate_limit_userId_def
        post_api_data_userId_def js_or_def js_or_lit_def truthy_def present_def
        rateLimiterMiddleware_def new_RateLimiter_def checkLimit_def getStatus_def
        reset_rate_limit_def reset_def)




text \<open>
  Claim C10. When the header, the query parameter and the body field of a request are
  each absent or the empty string, the middleware resolves the key \<open>anonymous\<close>: it does
  what it does on \<open>checkLimit\<close> for \<open>anonymous\<close>, the request is counted against the
  record of \<open>anonymous\<close>, and the record of the empty-string key is left as it was.
\<close>

theorem empty_identity_is_anonymous:
  assumes "headers_x_user_id req \<in> {None, Some ''''}"
    and "query_userId req \<in> {None, Some ''''}"
    and "body_userId req \<in> {None, Some ''''}"
  shows "middleware_userId req = ''anonymous''
       \<and> rateLimiterMiddleware rl now now' req =
           (case checkLimit rl now ''anonymous'' of
              (result, rl') \<Rightarrow>
                ((\<lparr>x_RateLimit_Limit = maxRequests rl', x_RateLimit_Remaining = remaining result,
                    x_RateLimit_Reset = resetTime result\<rparr>,
                  if allowed result then Next
                  else Rejected429 \<lparr>resetTime = resetTime result,
                                     retryAfter = ceil_seconds (resetTime result - now')\<rparr>), rl'))
       \<and> snd (rateLimiterMiddleware rl now now' req) = snd (checkLimit rl now ''anonymous'')
       \<and> map_of (userRequests (snd (rateLimiterMiddleware rl now now' req))) '''' =
           map_of (userRequests rl) ''''"
proof -
  have u: "middleware_userId req = ''anonymous''"
    using assms by (auto simp add: middleware_userId_def js_or_def js_or_lit_def truthy_def)
  have s: "snd (rateLimiterMiddleware rl now now' req) = snd (checkLimit rl now ''anonymous'')"
    by (simp add: rateLimiterMiddleware_def u Let_def split_beta)
  have "map_of (userRequests (snd (checkLimit rl now ''anonymous''))) '''' =
        map_of (userRequests rl) ''''"
    by (rule checkLimit_other) simp
  then show ?thesis
    using u s by (simp add: rateLimiterMiddleware_def Let_def split_beta)
qed

text \<open>
  A request with an empty header, no query parameter and an empty body field, on a
  limiter where \<open>anonymous\<close> has already made four requests.
\<close>

theorem empty_identity_is_anonymous_witness:
  "middleware_userId
      \<lparr>headers_x_user_id = Some '''', query_userId = None, body_userId = Some ''''\<rparr> = ''anonymous''
   \<and> rateLimiterMiddleware
        \<lparr>maxRequests = 5, windowMs = 60000,
         userRequests = [(''anonymous'', \<lparr>resetTime = 61000, count = 4\<rparr>)]\<rparr> 2000 2000
        \<lparr>headers_x_user_id = Some '''', query_userId = None, body_userId = Some ''''\<rparr> =
       ((\<lparr>x_RateLimit_Limit = 5, x_RateLimit_Remaining = 0, x_RateLimit_Reset = 61000\<rparr>, Next),
        \<lparr>maxRequests = 5, windowMs = 60000,
         userRequests = [(''anonymous'', \<lparr>resetTime = 61000, count = 5\<rparr>)]\<rparr>)"
  using empty_identity_is_anonymous
    [of "\<lparr>headers_x_user_id = Some '''', query_userId = None, body_userId = Some ''''\<rparr>"
        "\<lparr>maxRequests = 5, windowMs = 60000,
          userRequests = [(''anonymous'', \<lparr>resetTime = 61000, count = 4\<rparr>)]\<rparr>" 2000 2000]
  by (simp add: checkLimit_def)

end
